theory Spec2Isabelle
  imports Main
begin

section \<open>The useWebRTC hook: data\<close>

text \<open>
  The hook \<open>useWebRTC\<close> keeps React state (\<open>isConnecting\<close>, \<open>connectionState\<close>, ...) and
  mutable refs (\<open>peerConnectionRef\<close>, \<open>iceCandidatesRef\<close>, the two mode flags). The browser's
  \<open>RTCPeerConnection\<close> objects live outside the hook; the model keeps every connection the hook
  ever constructed in a list, a handle being the position in that list, and records on each
  connection what the hook has committed to it. The media part of the hook (\<open>startCamera\<close>,
  \<open>stopCamera\<close>, the two toggles) touches none of the fields below and is left out.
\<close>

type_synonym sdp_text = string
type_synonym RTCIceCandidate = string
type_synonym MediaStream = nat

datatype RTCSdpType = Offer | Answer

text \<open>\<open>interface SignalingData { type; sdp; iceCandidates }\<close>\<close>

record SignalingData =
  sd_type :: RTCSdpType
  sdp :: sdp_text
  iceCandidates :: "RTCIceCandidate list"

datatype RTCPeerConnectionState = New | Connecting | Connected | Disconnected | Failed | Closed

text \<open>
  One transport session: whether \<open>close()\<close> was called on it, the descriptions committed by
  \<open>setLocalDescription\<close> and \<open>setRemoteDescription\<close>, and the candidates accepted by
  \<open>addIceCandidate\<close>, in the order of the calls.
\<close>

record RTCPeerConnection =
  isClosed :: bool
  localDescription :: "(RTCSdpType \<times> sdp_text) option"
  remoteDescription :: "(RTCSdpType \<times> sdp_text) option"
  remoteCandidates :: "RTCIceCandidate list"

definition newPeerConnection :: RTCPeerConnection where
  "newPeerConnection =
     \<lparr>isClosed = False, localDescription = None, remoteDescription = None, remoteCandidates = []\<rparr>"

record webrtc =
  remoteStream :: "MediaStream option"
  isConnected :: bool
  isConnecting :: bool
  connectionState :: RTCPeerConnectionState
  peerConnectionRef :: "nat option"
  iceCandidatesRef :: "RTCIceCandidate list"
  isCreatingAnswerRef :: bool
  isActivelyConnectingRef :: bool
  connections :: "RTCPeerConnection list"

text \<open>The hook before its mount effect has run: the \<open>useState\<close> and \<open>useRef\<close> initial values.\<close>

definition initialHook :: webrtc where
  "initialHook =
     \<lparr>remoteStream = None, isConnected = False, isConnecting = False, connectionState = New,
      peerConnectionRef = None, iceCandidatesRef = [], isCreatingAnswerRef = False,
      isActivelyConnectingRef = False, connections = []\<rparr>"

datatype transport_call =
  CreateOfferCall | CreateAnswerCall | SetLocalDescription | SetRemoteDescription | AddIceCandidate

text \<open>
  What the hook throws: its own \<open>Error('Peer connection not initialized')\<close>, the
  \<open>TypeError\<close> of a method call on a null \<open>peerConnectionRef.current\<close>, and whatever a
  rejected transport promise carries, which the \<open>catch\<close> blocks rethrow as it is.
\<close>

datatype error = NotInitialized | TypeError | TransportRejected transport_call

section \<open>Event handlers registered by initializePeerConnection\<close>

text \<open>
  \<open>ConnectionStateChange st\<close> is \<open>onconnectionstatechange\<close> firing while the connection's
  \<open>connectionState\<close> reads \<open>st\<close>; \<open>Track streams\<close> is \<open>ontrack\<close> with \<open>event.streams\<close>;
  \<open>IceCandidate c\<close> is \<open>onicecandidate\<close> with \<open>event.candidate\<close> (null at the end of
  gathering); the last two handlers only log.
\<close>

datatype event =
  ConnectionStateChange RTCPeerConnectionState
  | Track "MediaStream list"
  | IceCandidate "RTCIceCandidate option"
  | IceConnectionStateChange
  | IceGatheringStateChange

definition onconnectionstatechange :: "RTCPeerConnectionState \<Rightarrow> webrtc \<Rightarrow> webrtc" where
  "onconnectionstatechange state s =
     (let s1 = s\<lparr>connectionState := state, isConnected := (state = Connected)\<rparr> in
      if isActivelyConnectingRef s1 \<and> state = Connecting then s1\<lparr>isConnecting := True\<rparr>
      else if state = Connected \<or> state = Disconnected \<or> state = Failed
        then s1\<lparr>isConnecting := False, isActivelyConnectingRef := False\<rparr>
      else s1)"

definition ontrack :: "MediaStream list \<Rightarrow> webrtc \<Rightarrow> webrtc" where
  "ontrack streams s =
     s\<lparr>remoteStream := (case streams of [] \<Rightarrow> None | st # _ \<Rightarrow> Some st)\<rparr>"

definition onicecandidate :: "RTCIceCandidate option \<Rightarrow> webrtc \<Rightarrow> webrtc" where
  "onicecandidate candidate s =
     (case candidate of
        None \<Rightarrow> s
      | Some c \<Rightarrow> s\<lparr>iceCandidatesRef := iceCandidatesRef s @ [c]\<rparr>)"

fun dispatch :: "event \<Rightarrow> webrtc \<Rightarrow> webrtc" where
  "dispatch (ConnectionStateChange state) s = onconnectionstatechange state s"
| "dispatch (Track streams) s = ontrack streams s"
| "dispatch (IceCandidate candidate) s = onicecandidate candidate s"
| "dispatch IceConnectionStateChange s = s"
| "dispatch IceGatheringStateChange s = s"

text \<open>The states the hook passes through while a list of events is handled, one per event.\<close>

fun deliver :: "event list \<Rightarrow> webrtc \<Rightarrow> webrtc list" where
  "deliver [] s = []"
| "deliver (e # es) s = dispatch e s # deliver es (dispatch e s)"

section \<open>initializePeerConnection and resetConnection\<close>

text \<open>\<open>if (peerConnectionRef.current) peerConnectionRef.current.close()\<close>\<close>

definition closeCurrent :: "webrtc \<Rightarrow> webrtc" where
  "closeCurrent s =
     (case peerConnectionRef s of
        None \<Rightarrow> s
      | Some h \<Rightarrow>
          s\<lparr>connections := (connections s)[h := (connections s ! h)\<lparr>isClosed := True\<rparr>]\<rparr>)"

text \<open>
  The three stages of \<open>initializePeerConnection\<close>: the old connection closed, the new one
  constructed (\<open>new RTCPeerConnection\<close>, its handle the next free position), and the two refs
  assigned.
\<close>

definition initializeSteps :: "webrtc \<Rightarrow> webrtc list" where
  "initializeSteps s =
     (let s1 = closeCurrent s;
          s2 = s1\<lparr>connections := connections s1 @ [newPeerConnection]\<rparr>;
          s3 = s2\<lparr>peerConnectionRef := Some (length (connections s1)), iceCandidatesRef := []\<rparr>
      in [s1, s2, s3])"

definition initializePeerConnection :: "webrtc \<Rightarrow> webrtc" where
  "initializePeerConnection s = last (initializeSteps s)"

definition resetSteps :: "webrtc \<Rightarrow> webrtc list" where
  "resetSteps s =
     (let s1 = closeCurrent s;
          s2 = s1\<lparr>remoteStream := None, isConnected := False, isConnecting := False,
                  connectionState := New, isActivelyConnectingRef := False,
                  isCreatingAnswerRef := False\<rparr>
      in s1 # s2 # initializeSteps s2)"

definition resetConnection :: "webrtc \<Rightarrow> webrtc" where
  "resetConnection s = last (resetSteps s)"

text \<open>The mount effect: \<open>useEffect(() => { initializePeerConnection(); ... })\<close>.\<close>

definition mounted :: webrtc where
  "mounted = initializePeerConnection initialHook"

section \<open>Asynchronous operations\<close>

text \<open>
  An operation runs in segments separated by \<open>await\<close>. While an awaited transport promise is
  pending the event handlers above may run. The environment says, for the \<open>k\<close>-th awaited call
  of an operation, which events are dispatched while it is pending and whether the promise
  rejects; it gives the description text \<open>createOffer()\<close>/\<open>createAnswer()\<close> resolve with; and for
  the gathering wait, whether \<open>iceGatheringState\<close> reads \<open>'complete'\<close> at a given time (in ms
  since the wait began) and which events are dispatched between the poll at that time and the
  next timer.

  The outcome of an operation is its result and the list of states the hook passes through
  after the state it started in.
\<close>

record environment =
  during :: "nat \<Rightarrow> event list"
  rejects :: "nat \<Rightarrow> bool"
  createdSdp :: sdp_text
  gatheringComplete :: "nat \<Rightarrow> bool"
  whileGathering :: "nat \<Rightarrow> event list"

type_synonym 'a outcome = "(error + 'a) \<times> webrtc list"

text \<open>The state reached from \<open>s\<close> after passing through \<open>tr\<close>.\<close>

fun lastState :: "webrtc \<Rightarrow> webrtc list \<Rightarrow> webrtc" where
  "lastState s [] = s"
| "lastState s (t # tr) = lastState t tr"

definition finalState :: "webrtc \<Rightarrow> 'a outcome \<Rightarrow> webrtc" where
  "finalState s out = lastState s (snd out)"

definition andThen ::
  "(webrtc \<Rightarrow> 'a outcome) \<Rightarrow> ('a \<Rightarrow> webrtc \<Rightarrow> 'b outcome) \<Rightarrow> webrtc \<Rightarrow> 'b outcome" where
  "andThen m f s =
     (case m s of
        (Inl e, tr) \<Rightarrow> (Inl e, tr)
      | (Inr a, tr) \<Rightarrow> (case f a (lastState s tr) of (r, tr') \<Rightarrow> (r, tr @ tr')))"

text \<open>A synchronous segment that only assigns.\<close>

definition assign :: "(webrtc \<Rightarrow> webrtc) \<Rightarrow> webrtc \<Rightarrow> unit outcome" where
  "assign f s = (Inr (), [f s])"

text \<open>\<open>try { body } catch (error) { handler; throw error }\<close>\<close>

definition tryCatch :: "(webrtc \<Rightarrow> 'a outcome) \<Rightarrow> (webrtc \<Rightarrow> webrtc) \<Rightarrow> webrtc \<Rightarrow> 'a outcome" where
  "tryCatch body handler s =
     (case body s of
        (Inl e, tr) \<Rightarrow> (Inl e, tr @ [handler (lastState s tr)])
      | (Inr a, tr) \<Rightarrow> (Inr a, tr))"

text \<open>
  \<open>await peerConnectionRef.current.call(...)\<close>, the \<open>k\<close>-th await of the operation: the ref is
  read when the call is made; an accepted call commits its effect to that connection; the
  events of the suspension are handled; the promise settles.
\<close>

definition awaitCall ::
  "environment \<Rightarrow> nat \<Rightarrow> transport_call \<Rightarrow> (RTCPeerConnection \<Rightarrow> RTCPeerConnection) \<Rightarrow>
   webrtc \<Rightarrow> unit outcome" where
  "awaitCall env k call effect s =
     (case peerConnectionRef s of
        None \<Rightarrow> (Inl TypeError, [])
      | Some h \<Rightarrow>
          if rejects env k then (Inl (TransportRejected call), deliver (during env k) s)
          else
            (let s1 = s\<lparr>connections := (connections s)[h := effect (connections s ! h)]\<rparr>
             in (Inr (), s1 # deliver (during env k) s1)))"

definition commitRemote :: "RTCSdpType \<times> sdp_text \<Rightarrow> RTCPeerConnection \<Rightarrow> RTCPeerConnection" where
  "commitRemote d pc = pc\<lparr>remoteDescription := Some d\<rparr>"

definition commitLocal :: "RTCSdpType \<times> sdp_text \<Rightarrow> RTCPeerConnection \<Rightarrow> RTCPeerConnection" where
  "commitLocal d pc = pc\<lparr>localDescription := Some d\<rparr>"

definition commitCandidate :: "RTCIceCandidate \<Rightarrow> RTCPeerConnection \<Rightarrow> RTCPeerConnection" where
  "commitCandidate c pc = pc\<lparr>remoteCandidates := remoteCandidates pc @ [c]\<rparr>"

text \<open>
  \<open>for (const candidate of data.iceCandidates) await peerConnectionRef.current.addIceCandidate(candidate)\<close>,
  the first of these calls being the \<open>k\<close>-th await of the operation.
\<close>

fun addIceCandidates :: "environment \<Rightarrow> nat \<Rightarrow> RTCIceCandidate list \<Rightarrow> webrtc \<Rightarrow> unit outcome" where
  "addIceCandidates env k [] s = (Inr (), [])"
| "addIceCandidates env k (c # cs) s =
     (case awaitCall env k AddIceCandidate (commitCandidate c) s of
        (Inl e, tr) \<Rightarrow> (Inl e, tr)
      | (Inr u, tr) \<Rightarrow>
          (case addIceCandidates env (Suc k) cs (lastState s tr) of (r, tr') \<Rightarrow> (r, tr @ tr')))"

subsection \<open>The gathering wait\<close>

text \<open>
  \<open>setTimeout(resolve, 2000)\<close> and the poll \<open>checkIceGathering\<close>, which re-arms itself with
  \<open>setTimeout(checkIceGathering, 100)\<close> until \<open>iceGatheringState === 'complete'\<close>. Timers run on
  the clock of the wait: the poll runs at \<open>0, 100, 200, ...\<close>; the timeout, armed first, runs at
  \<open>2000\<close> before the poll due at the same time. The function gives the time at which the promise
  resolves and the states passed through until then.
\<close>

definition timeoutMs :: nat where
  "timeoutMs = 2000"

definition pollMs :: nat where
  "pollMs = 100"

function checkIceGathering :: "environment \<Rightarrow> nat \<Rightarrow> webrtc \<Rightarrow> nat \<times> webrtc list" where
  "checkIceGathering env t s =
     (if timeoutMs \<le> t then (timeoutMs, [])
      else if gatheringComplete env t then (t, [])
      else
        (let tr = deliver (whileGathering env t) s in
         case checkIceGathering env (t + pollMs) (lastState s tr) of
           (t', tr') \<Rightarrow> (t', tr @ tr')))"
  by pat_completeness auto
termination
  by (relation "measure (\<lambda>(env, t, s). timeoutMs - t)") (auto simp: pollMs_def)

declare checkIceGathering.simps [simp del]

definition gatheringWait :: "environment \<Rightarrow> webrtc \<Rightarrow> nat outcome" where
  "gatheringWait env s = (case checkIceGathering env 0 s of (t, tr) \<Rightarrow> (Inr t, tr))"

subsection \<open>createOffer, handleAnswer, createAnswer, handleOffer\<close>

definition createOffer :: "environment \<Rightarrow> webrtc \<Rightarrow> SignalingData outcome" where
  "createOffer env s =
     (case peerConnectionRef s of
        None \<Rightarrow> (Inl NotInitialized, [])
      | Some h0 \<Rightarrow>
          tryCatch
            (andThen (assign (\<lambda>s. s\<lparr>iceCandidatesRef := []\<rparr>))
              (\<lambda>_. andThen (awaitCall env 0 CreateOfferCall id)
                (\<lambda>_. andThen (awaitCall env 1 SetLocalDescription
                                (commitLocal (Offer, createdSdp env)))
                  (\<lambda>_. andThen (gatheringWait env)
                    (\<lambda>_ s'. (Inr \<lparr>sd_type = Offer, sdp = createdSdp env,
                                   iceCandidates = iceCandidatesRef s'\<rparr>, []))))))
            id s)"

definition handleAnswer :: "environment \<Rightarrow> SignalingData \<Rightarrow> webrtc \<Rightarrow> unit outcome" where
  "handleAnswer env answerData s =
     (case peerConnectionRef s of
        None \<Rightarrow> (Inl NotInitialized, [])
      | Some h0 \<Rightarrow>
          tryCatch
            (andThen (assign (\<lambda>s. s\<lparr>isCreatingAnswerRef := False,
                                     isActivelyConnectingRef := True,
                                     isConnecting := True\<rparr>))
              (\<lambda>_. andThen (awaitCall env 0 SetRemoteDescription
                              (commitRemote (Answer, sdp answerData)))
                (\<lambda>_. addIceCandidates env 1 (iceCandidates answerData))))
            (\<lambda>s. s\<lparr>isConnecting := False\<rparr>) s)"

definition createAnswer :: "environment \<Rightarrow> SignalingData \<Rightarrow> webrtc \<Rightarrow> SignalingData outcome" where
  "createAnswer env offerData s =
     (case peerConnectionRef s of
        None \<Rightarrow> (Inl NotInitialized, [])
      | Some h0 \<Rightarrow>
          (let n = length (iceCandidates offerData) in
           tryCatch
             (andThen (assign (\<lambda>s. s\<lparr>iceCandidatesRef := [], isCreatingAnswerRef := True\<rparr>))
               (\<lambda>_. andThen (awaitCall env 0 SetRemoteDescription
                               (commitRemote (Offer, sdp offerData)))
                 (\<lambda>_. andThen (addIceCandidates env 1 (iceCandidates offerData))
                   (\<lambda>_. andThen (awaitCall env (n + 1) CreateAnswerCall id)
                     (\<lambda>_. andThen (awaitCall env (n + 2) SetLocalDescription
                                     (commitLocal (Answer, createdSdp env)))
                       (\<lambda>_. andThen (gatheringWait env)
                         (\<lambda>_ s'. (Inr \<lparr>sd_type = Answer, sdp = createdSdp env,
                                        iceCandidates = iceCandidatesRef s'\<rparr>,
                                   [s'\<lparr>isCreatingAnswerRef := False\<rparr>]))))))))
             (\<lambda>s. s\<lparr>isCreatingAnswerRef := False\<rparr>) s))"

text \<open>\<open>const handleOffer = async (answerData) => { await createAnswer(answerData); }\<close>\<close>

definition handleOffer :: "environment \<Rightarrow> SignalingData \<Rightarrow> webrtc \<Rightarrow> unit outcome" where
  "handleOffer env answerData s =
     (case createAnswer env answerData s of
        (Inl e, tr) \<Rightarrow> (Inl e, tr)
      | (Inr payload, tr) \<Rightarrow> (Inr (), tr))"

section \<open>Auxiliary notions and concrete scenarios\<close>

text \<open>A property of states that an operation keeps in every state it passes through.\<close>

definition throughout :: "(webrtc \<Rightarrow> bool) \<Rightarrow> (webrtc \<Rightarrow> 'a outcome) \<Rightarrow> bool" where
  "throughout P m = (\<forall>s. P s \<longrightarrow> (\<forall>t \<in> set (snd (m s)). P t))"

text \<open>Neither the "actively connecting" flag nor the published \<open>isConnecting\<close> is set.\<close>

definition idle :: "webrtc \<Rightarrow> bool" where
  "idle s = (\<not> isActivelyConnectingRef s \<and> \<not> isConnecting s)"

text \<open>
  The candidates of \<open>cs\<close> that \<open>addIceCandidates\<close> gets accepted: those before the first
  rejected call.
\<close>

fun acceptedPrefix :: "environment \<Rightarrow> nat \<Rightarrow> RTCIceCandidate list \<Rightarrow> RTCIceCandidate list" where
  "acceptedPrefix env k [] = []"
| "acceptedPrefix env k (c # cs) =
     (if rejects env k then [] else c # acceptedPrefix env (Suc k) cs)"

text \<open>A transport that accepts every call, dispatches no event and has finished gathering.\<close>

definition quietTransport :: environment where
  "quietTransport =
     \<lparr>during = (\<lambda>k. []), rejects = (\<lambda>k. False), createdSdp = ''v=0 local'',
      gatheringComplete = (\<lambda>t. True), whileGathering = (\<lambda>t. [])\<rparr>"

definition someAnswer :: SignalingData where
  "someAnswer =
     \<lparr>sd_type = Answer, sdp = ''v=0 remote'', iceCandidates = [''cand-a'', ''cand-b'']\<rparr>"

text \<open>A payload of kind \<open>answer\<close>, to be handed to \<open>createAnswer\<close>.\<close>

definition mislabelled :: SignalingData where
  "mislabelled = \<lparr>sd_type = Answer, sdp = ''v=0 remote'', iceCandidates = [''cand-a'']\<rparr>"





text \<open>A payload of kind \<open>offer\<close>.\<close>

definition someOffer :: SignalingData where
  "someOffer = \<lparr>sd_type = Offer, sdp = ''v=0 remote'', iceCandidates = [''cand-a'']\<rparr>"

text \<open>A transport that rejects every call.\<close>

definition rejectingTransport :: environment where
  "rejectingTransport =
     \<lparr>during = (\<lambda>k. []), rejects = (\<lambda>k. True), createdSdp = ''v=0 local'',
      gatheringComplete = (\<lambda>t. True), whileGathering = (\<lambda>t. [])\<rparr>"

text \<open>A transport that accepts the remote description and the first candidate and rejects the second.\<close>

definition secondCandidateRejected :: environment where
  "secondCandidateRejected =
     \<lparr>during = (\<lambda>k. []), rejects = (\<lambda>k. k = 2), createdSdp = ''v=0 local'',
      gatheringComplete = (\<lambda>t. True), whileGathering = (\<lambda>t. [])\<rparr>"

definition afterFailedAnswer :: webrtc where
  "afterFailedAnswer = finalState mounted (handleAnswer secondCandidateRejected someAnswer mounted)"

text \<open>
  A transport that reports \<open>connecting\<close> during every suspension and finishes gathering 200 ms
  into the wait.
\<close>

definition connectingTransport :: environment where
  "connectingTransport =
     \<lparr>during = (\<lambda>k. [ConnectionStateChange Connecting]), rejects = (\<lambda>k. False),
      createdSdp = ''v=0 local'', gatheringComplete = (\<lambda>t. 200 \<le> t),
      whileGathering = (\<lambda>t. [IceCandidate (Some ''cand-1''), ConnectionStateChange Connecting])\<rparr>"

text \<open>A transport that never finishes gathering and finds no candidate.\<close>

definition silentTransport :: environment where
  "silentTransport =
     \<lparr>during = (\<lambda>k. []), rejects = (\<lambda>k. False), createdSdp = ''v=0 local'',
      gatheringComplete = (\<lambda>t. False), whileGathering = (\<lambda>t. [])\<rparr>"

text \<open>
  A transport that never finishes gathering: it finds one candidate 300 ms into the wait, and
  the wait ends by its timeout.
\<close>

definition slowTransport :: environment where
  "slowTransport =
     \<lparr>during = (\<lambda>k. []), rejects = (\<lambda>k. False), createdSdp = ''v=0 local'',
      gatheringComplete = (\<lambda>t. False),
      whileGathering = (\<lambda>t. if t = 300 then [IceCandidate (Some ''cand-1'')] else [])\<rparr>"

definition afterSlowAnswer :: webrtc where
  "afterSlowAnswer = finalState mounted (createAnswer slowTransport someOffer mounted)"

text \<open>
  Sequences of \<open>initializePeerConnection\<close> and \<open>resetConnection\<close> calls, with every state they
  pass through.
\<close>

datatype lifecycle_call = Initialize | Reset

fun callSteps :: "lifecycle_call \<Rightarrow> webrtc \<Rightarrow> webrtc list" where
  "callSteps Initialize s = initializeSteps s"
| "callSteps Reset s = resetSteps s"

fun runCalls :: "lifecycle_call list \<Rightarrow> webrtc \<Rightarrow> webrtc list" where
  "runCalls [] s = []"
| "runCalls (c # cs) s = callSteps c s @ runCalls cs (lastState s (callSteps c s))"

text \<open>The number of connections on which \<open>close()\<close> has not been called.\<close>

definition openHandles :: "webrtc \<Rightarrow> nat" where
  "openHandles s = length (filter (\<lambda>pc. \<not> isClosed pc) (connections s))"

text \<open>No connection other than the one \<open>peerConnectionRef\<close> holds is open.\<close>

definition onlyCurrentOpen :: "webrtc \<Rightarrow> bool" where
  "onlyCurrentOpen s =
     (\<forall>i<length (connections s). \<not> isClosed (connections s ! i) \<longrightarrow> peerConnectionRef s = Some i)"

definition allClosed :: "webrtc \<Rightarrow> bool" where
  "allClosed s = (\<forall>pc \<in> set (connections s). isClosed pc)"

text \<open>
  A session as \<open>initializePeerConnection\<close> leaves it: the last connection is new and is the
  current one, every other connection is closed, and the accumulator is empty.
\<close>

definition freshSession :: "webrtc \<Rightarrow> bool" where
  "freshSession s =
     (\<exists>old. connections s = old @ [newPeerConnection] \<and> (\<forall>pc \<in> set old. isClosed pc)
        \<and> peerConnectionRef s = Some (length old) \<and> iceCandidatesRef s = [])"

section \<open>Lemmas about traces and results\<close>




lemma lastState_append [simp]: "lastState s (tr @ tr') = lastState (lastState s tr) tr'"
  by (induction tr arbitrary: s) simp_all

lemma lastState_last: "lastState s tr = last (s # tr)"
  by (induction tr arbitrary: s) simp_all

lemma last_keeps: "P s \<Longrightarrow> \<forall>t \<in> set tr. P t \<Longrightarrow> P (lastState s tr)"
  by (induction tr arbitrary: s) simp_all

lemma throughoutD: "throughout P m \<Longrightarrow> P s \<Longrightarrow> t \<in> set (snd (m s)) \<Longrightarrow> P t"
  by (simp add: throughout_def)

lemma throughout_andThen:
  assumes "throughout P m" and "\<And>a. throughout P (f a)"
  shows "throughout P (andThen m f)"
  unfolding throughout_def
proof (intro allI impI ballI)
  fix s t
  assume s: "P s" and t: "t \<in> set (snd (andThen m f s))"
  obtain r tr where m: "m s = (r, tr)" by (cases "m s")
  have tr: "\<forall>u \<in> set tr. P u"
    using assms(1) s m by (auto simp: throughout_def)
  show "P t"
  proof (cases r)
    case (Inl e)
    with m t tr show ?thesis by (simp add: andThen_def)
  next
    case (Inr a)
    obtain r' tr' where f: "f a (lastState s tr) = (r', tr')" by (cases "f a (lastState s tr)")
    have "P (lastState s tr)" using s tr by (rule last_keeps)
    then have "\<forall>u \<in> set tr'. P u"
      using assms(2) [of a] f by (auto simp: throughout_def)
    with Inr m f t tr show ?thesis by (auto simp: andThen_def)
  qed
qed

lemma throughout_tryCatch:
  assumes "throughout P body" and "\<And>s. P s \<Longrightarrow> P (handler s)"
  shows "throughout P (tryCatch body handler)"
  unfolding throughout_def
proof (intro allI impI ballI)
  fix s t
  assume s: "P s" and t: "t \<in> set (snd (tryCatch body handler s))"
  obtain r tr where m: "body s = (r, tr)" by (cases "body s")
  have tr: "\<forall>u \<in> set tr. P u"
    using assms(1) s m by (auto simp: throughout_def)
  have "P (lastState s tr)" using s tr by (rule last_keeps)
  then have "P (handler (lastState s tr))" by (rule assms(2))
  with m t tr show "P t"
    by (cases r) (auto simp: tryCatch_def)
qed

lemma throughout_assign: "(\<And>s. P s \<Longrightarrow> P (f s)) \<Longrightarrow> throughout P (assign f)"
  by (simp add: throughout_def assign_def)

lemma deliver_keeps:
  "(\<And>e s. P s \<Longrightarrow> P (dispatch e s)) \<Longrightarrow> P s \<Longrightarrow> \<forall>t \<in> set (deliver es s). P t"
  by (induction es arbitrary: s) auto

lemma throughout_awaitCall:
  assumes "\<And>e s. P s \<Longrightarrow> P (dispatch e s)"
    and "\<And>s c. P s \<Longrightarrow> P (s\<lparr>connections := c\<rparr>)"
  shows "throughout P (awaitCall env k call effect)"
  unfolding throughout_def
proof (intro allI impI ballI)
  fix s t
  assume s: "P s" and t: "t \<in> set (snd (awaitCall env k call effect s))"
  show "P t"
  proof (cases "peerConnectionRef s")
    case None
    with t show ?thesis by (simp add: awaitCall_def)
  next
    case (Some h)
    let ?s1 = "s\<lparr>connections := (connections s)[h := effect (connections s ! h)]\<rparr>"
    have 1: "\<forall>u \<in> set (deliver (during env k) s). P u"
      using assms(1) s by (rule deliver_keeps)
    have "P ?s1" using s by (rule assms(2))
    with assms(1) have 2: "\<forall>u \<in> set (deliver (during env k) ?s1). P u"
      by (rule deliver_keeps)
    from t Some 1 2 \<open>P ?s1\<close> show ?thesis
      by (auto simp: awaitCall_def Let_def split: if_splits)
  qed
qed

lemma throughout_addIceCandidates:
  assumes "\<And>e s. P s \<Longrightarrow> P (dispatch e s)"
    and "\<And>s c. P s \<Longrightarrow> P (s\<lparr>connections := c\<rparr>)"
  shows "throughout P (addIceCandidates env k cs)"
proof (induction cs arbitrary: k)
  case Nil
  show ?case by (simp add: throughout_def)
next
  case (Cons c cs)
  have eq: "addIceCandidates env k (c # cs) =
      andThen (awaitCall env k AddIceCandidate (commitCandidate c))
        (\<lambda>_. addIceCandidates env (Suc k) cs)"
    by (rule ext) (simp add: andThen_def split: prod.splits sum.splits)
  show ?case
    unfolding eq
    by (intro throughout_andThen throughout_awaitCall assms Cons.IH)
qed

lemma checkIceGathering_keeps:
  assumes "\<And>e s. P s \<Longrightarrow> P (dispatch e s)"
  shows "P s \<Longrightarrow> \<forall>u \<in> set (snd (checkIceGathering env t s)). P u"
proof (induction env t s rule: checkIceGathering.induct)
  case (1 env t s)
  show ?case
  proof (cases "timeoutMs \<le> t \<or> gatheringComplete env t")
    case True
    then show ?thesis by (auto simp: checkIceGathering.simps)
  next
    case False
    let ?tr = "deliver (whileGathering env t) s"
    have tr: "\<forall>u \<in> set ?tr. P u" using assms "1.prems" by (rule deliver_keeps)
    have "P (lastState s ?tr)" using "1.prems" tr by (rule last_keeps)
    with False "1.IH" [of ?tr] have "\<forall>u \<in> set (snd (checkIceGathering env (t + pollMs) (lastState s ?tr))). P u"
      by simp
    with False tr show ?thesis
      by (subst checkIceGathering.simps) (auto simp: Let_def split: prod.splits)
  qed
qed

lemma throughout_gatheringWait:
  assumes "\<And>e s. P s \<Longrightarrow> P (dispatch e s)"
  shows "throughout P (gatheringWait env)"
  unfolding throughout_def gatheringWait_def
  using checkIceGathering_keeps [of P, OF assms]
  by (auto split: prod.splits) (metis snd_conv)

lemma idle_dispatch: "idle s \<Longrightarrow> idle (dispatch e s)"
  by (cases e) (auto simp: idle_def onconnectionstatechange_def ontrack_def onicecandidate_def Let_def split: option.splits)

lemma throughout_createOffer: "throughout idle (createOffer env)"
  unfolding throughout_def
proof (intro allI impI ballI)
  fix s t
  assume s: "idle s" and t: "t \<in> set (snd (createOffer env s))"
  show "idle t"
  proof (cases "peerConnectionRef s")
    case None
    with t show ?thesis by (simp add: createOffer_def)
  next
    case (Some h)
    have "throughout idle (tryCatch
            (andThen (assign (\<lambda>s. s\<lparr>iceCandidatesRef := []\<rparr>))
              (\<lambda>_. andThen (awaitCall env 0 CreateOfferCall id)
                (\<lambda>_. andThen (awaitCall env 1 SetLocalDescription
                                (commitLocal (Offer, createdSdp env)))
                  (\<lambda>_. andThen (gatheringWait env)
                    (\<lambda>_ s'. (Inr \<lparr>sd_type = Offer, sdp = createdSdp env,
                                   iceCandidates = iceCandidatesRef s'\<rparr>, []))))))
            id)"
      by (intro throughout_tryCatch throughout_andThen throughout_assign throughout_awaitCall
            throughout_gatheringWait idle_dispatch)
         (auto simp: idle_def throughout_def)
    from throughoutD [OF this s] t Some show ?thesis
      by (simp add: createOffer_def)
  qed
qed

lemma throughout_createAnswer: "throughout idle (createAnswer env p)"
  unfolding throughout_def
proof (intro allI impI ballI)
  fix s t
  assume s: "idle s" and t: "t \<in> set (snd (createAnswer env p s))"
  show "idle t"
  proof (cases "peerConnectionRef s")
    case None
    with t show ?thesis by (simp add: createAnswer_def)
  next
    case (Some h)
    have "throughout idle (tryCatch
             (andThen (assign (\<lambda>s. s\<lparr>iceCandidatesRef := [], isCreatingAnswerRef := True\<rparr>))
               (\<lambda>_. andThen (awaitCall env 0 SetRemoteDescription
                               (commitRemote (Offer, sdp p)))
                 (\<lambda>_. andThen (addIceCandidates env 1 (iceCandidates p))
                   (\<lambda>_. andThen (awaitCall env (length (iceCandidates p) + 1) CreateAnswerCall id)
                     (\<lambda>_. andThen (awaitCall env (length (iceCandidates p) + 2) SetLocalDescription
                                     (commitLocal (Answer, createdSdp env)))
                       (\<lambda>_. andThen (gatheringWait env)
                         (\<lambda>_ s'. (Inr \<lparr>sd_type = Answer, sdp = createdSdp env,
                                        iceCandidates = iceCandidatesRef s'\<rparr>,
                                   [s'\<lparr>isCreatingAnswerRef := False\<rparr>]))))))))
             (\<lambda>s. s\<lparr>isCreatingAnswerRef := False\<rparr>))"
      by (intro throughout_tryCatch throughout_andThen throughout_assign throughout_awaitCall
            throughout_gatheringWait throughout_addIceCandidates idle_dispatch)
         (auto simp: idle_def throughout_def)
    from throughoutD [OF this s] t Some show ?thesis
      by (simp add: createAnswer_def Let_def)
  qed
qed

lemma idle_reset: "idle (resetConnection s0)"
  by (simp add: idle_def resetConnection_def resetSteps_def initializeSteps_def Let_def closeCurrent_def split: option.splits)

lemma idle_mounted: "idle mounted"
  by (simp add: idle_def mounted_def initializePeerConnection_def initializeSteps_def Let_def closeCurrent_def initialHook_def)




lemma dispatch_ref [simp]: "peerConnectionRef (dispatch e s) = peerConnectionRef s"
  by (cases e) (simp_all add: onconnectionstatechange_def ontrack_def onicecandidate_def Let_def split: option.splits)

lemma dispatch_connections [simp]: "connections (dispatch e s) = connections s"
  by (cases e) (simp_all add: onconnectionstatechange_def ontrack_def onicecandidate_def Let_def split: option.splits)

lemma deliver_last_ref [simp]: "peerConnectionRef (lastState s (deliver es s)) = peerConnectionRef s"
  by (induction es arbitrary: s) simp_all

lemma deliver_last_connections [simp]: "connections (lastState s (deliver es s)) = connections s"
  by (induction es arbitrary: s) simp_all


lemma acceptedPrefix_all: "\<forall>i<length cs. \<not> rejects env (k + i) \<Longrightarrow> acceptedPrefix env k cs = cs"
proof (induction cs arbitrary: k)
  case Nil
  show ?case by simp
next
  case (Cons c cs)
  from Cons.prems have "\<not> rejects env k" by force
  moreover have "\<forall>i<length cs. \<not> rejects env (Suc k + i)"
    using Cons.prems by force
  ultimately show ?case using Cons.IH [of "Suc k"] by simp
qed







lemma throughout_ball: "throughout P m \<Longrightarrow> P s \<Longrightarrow> \<forall>t \<in> set (snd (m s)). P t"
  by (simp add: throughout_def)

lemma finalState_keeps: "throughout P m \<Longrightarrow> P s \<Longrightarrow> P (finalState s (m s))"
  unfolding finalState_def by (rule last_keeps) (simp_all add: throughout_def)

subsection \<open>The gathering wait\<close>

lemma checkIceGathering_step:
  "\<not> timeoutMs \<le> t \<Longrightarrow> \<not> gatheringComplete env t \<Longrightarrow>
   fst (checkIceGathering env t s) =
     fst (checkIceGathering env (t + pollMs) (lastState s (deliver (whileGathering env t) s)))"
  by (subst checkIceGathering.simps) (simp add: Let_def split: prod.splits)

lemma checkIceGathering_bounds:
  "t \<le> timeoutMs \<Longrightarrow> t \<le> fst (checkIceGathering env t s) \<and> fst (checkIceGathering env t s) \<le> timeoutMs"
proof (induction env t s rule: checkIceGathering.induct)
  case (1 env t s)
  show ?case
  proof (cases "timeoutMs \<le> t \<or> gatheringComplete env t")
    case True
    with "1.prems" show ?thesis by (auto simp: checkIceGathering.simps)
  next
    case False
    let ?tr = "deliver (whileGathering env t) s"
    let ?rec = "checkIceGathering env (t + pollMs) (lastState s ?tr)"
    have step: "fst (checkIceGathering env t s) = fst ?rec"
      using False by (simp add: checkIceGathering_step)
    show ?thesis
    proof (cases "t + pollMs \<le> timeoutMs")
      case True
      with False "1.IH" [of ?tr] have "t + pollMs \<le> fst ?rec \<and> fst ?rec \<le> timeoutMs" by simp
      with step show ?thesis by simp
    next
      case over: False
      then have "fst ?rec = timeoutMs" by (simp add: checkIceGathering.simps)
      with step "1.prems" show ?thesis by simp
    qed
  qed
qed

lemma checkIceGathering_first_complete:
  "\<forall>j<k. \<not> gatheringComplete env (t + j * pollMs) \<Longrightarrow> gatheringComplete env (t + k * pollMs) \<Longrightarrow>
   t + k * pollMs < timeoutMs \<Longrightarrow> fst (checkIceGathering env t s) = t + k * pollMs"
proof (induction k arbitrary: t s)
  case 0
  then show ?case by (simp add: checkIceGathering.simps)
next
  case (Suc k)
  from Suc.prems(1) have nc: "\<not> gatheringComplete env t" by force
  from Suc.prems(3) have lt: "\<not> timeoutMs \<le> t" by simp
  let ?s' = "lastState s (deliver (whileGathering env t) s)"
  have "\<forall>j<k. \<not> gatheringComplete env (t + pollMs + j * pollMs)"
  proof (intro allI impI)
    fix j assume "j < k"
    then have "Suc j < Suc k" by simp
    with Suc.prems(1) have "\<not> gatheringComplete env (t + Suc j * pollMs)" by blast
    then show "\<not> gatheringComplete env (t + pollMs + j * pollMs)" by (simp add: add.assoc)
  qed
  moreover have "gatheringComplete env (t + pollMs + k * pollMs)"
    using Suc.prems(2) by (simp add: add.assoc)
  moreover have "t + pollMs + k * pollMs < timeoutMs"
    using Suc.prems(3) by (simp add: add.assoc)
  ultimately have "fst (checkIceGathering env (t + pollMs) ?s') = t + pollMs + k * pollMs"
    by (rule Suc.IH)
  with nc lt show ?case
    by (simp add: checkIceGathering_step add.assoc)
qed

lemma checkIceGathering_never_complete:
  "\<forall>t'. \<not> gatheringComplete env t' \<Longrightarrow> fst (checkIceGathering env t s) = timeoutMs"
proof (induction env t s rule: checkIceGathering.induct)
  case (1 env t s)
  show ?case
  proof (cases "timeoutMs \<le> t")
    case True
    then show ?thesis by (simp add: checkIceGathering.simps)
  next
    case False
    let ?tr = "deliver (whileGathering env t) s"
    from "1.prems" have nc: "\<not> gatheringComplete env t" by simp
    with False "1.IH" [of ?tr] "1.prems"
    have "fst (checkIceGathering env (t + pollMs) (lastState s ?tr)) = timeoutMs" by simp
    with False nc show ?thesis
      by (simp add: checkIceGathering_step)
  qed
qed

lemma gatheringWait_Inr: "\<exists>t tr. gatheringWait env s = (Inr t, tr) \<and> t \<le> timeoutMs"
  using checkIceGathering_bounds [of 0 env s]
  by (auto simp: gatheringWait_def split: prod.splits)

lemma awaitCall_accepted:
  "peerConnectionRef s = Some h \<Longrightarrow> \<not> rejects env k \<Longrightarrow>
   \<exists>tr. awaitCall env k call eff s = (Inr (), tr) \<and> peerConnectionRef (lastState s tr) = Some h"
  by (simp add: awaitCall_def Let_def)

lemma addIceCandidates_accepted:
  "peerConnectionRef s = Some h \<Longrightarrow> \<forall>i<length cs. \<not> rejects env (k + i) \<Longrightarrow>
   \<exists>tr. addIceCandidates env k cs s = (Inr (), tr) \<and> peerConnectionRef (lastState s tr) = Some h"
proof (induction cs arbitrary: k s)
  case Nil
  then show ?case by simp
next
  case (Cons c cs)
  from Cons.prems(2) have "\<not> rejects env k" by force
  from awaitCall_accepted [OF Cons.prems(1) this] obtain tr1
    where a: "awaitCall env k AddIceCandidate (commitCandidate c) s = (Inr (), tr1)"
      and r: "peerConnectionRef (lastState s tr1) = Some h" by blast
  have "\<forall>i<length cs. \<not> rejects env (Suc k + i)" using Cons.prems(2) by force
  from Cons.IH [OF r this] obtain tr2
    where b: "addIceCandidates env (Suc k) cs (lastState s tr1) = (Inr (), tr2)"
      and r2: "peerConnectionRef (lastState (lastState s tr1) tr2) = Some h" by blast
  from a b r2 show ?case by simp
qed

lemma createOffer_returns:
  assumes "peerConnectionRef s = Some h" and "\<not> rejects env 0" and "\<not> rejects env 1"
  shows "fst (createOffer env s) =
           Inr \<lparr>sd_type = Offer, sdp = createdSdp env,
                iceCandidates = iceCandidatesRef (finalState s (createOffer env s))\<rparr>"
proof -
  let ?s0 = "s\<lparr>iceCandidatesRef := []\<rparr>"
  have r0: "peerConnectionRef ?s0 = Some h" using assms(1) by simp
  from awaitCall_accepted [OF r0 assms(2)] obtain tr1
    where a1: "awaitCall env 0 CreateOfferCall id ?s0 = (Inr (), tr1)"
      and r1: "peerConnectionRef (lastState ?s0 tr1) = Some h" by blast
  from awaitCall_accepted [OF r1 assms(3)] obtain tr2
    where a2: "awaitCall env 1 SetLocalDescription (commitLocal (Offer, createdSdp env)) (lastState ?s0 tr1) = (Inr (), tr2)"
    by blast
  from gatheringWait_Inr obtain t tr3
    where a3: "gatheringWait env (lastState (lastState ?s0 tr1) tr2) = (Inr t, tr3)" by blast
  show ?thesis
    using assms(1) a1 a2 a3
    by (simp add: createOffer_def tryCatch_def andThen_def assign_def finalState_def)
qed

lemma createAnswer_returns:
  assumes "peerConnectionRef s = Some h"
    and "\<forall>k\<le>length (iceCandidates p) + 2. \<not> rejects env k"
  shows "fst (createAnswer env p s) =
           Inr \<lparr>sd_type = Answer, sdp = createdSdp env,
                iceCandidates = iceCandidatesRef (finalState s (createAnswer env p s))\<rparr>"
proof -
  let ?n = "length (iceCandidates p)"
  let ?s0 = "s\<lparr>iceCandidatesRef := [], isCreatingAnswerRef := True\<rparr>"
  have r0: "peerConnectionRef ?s0 = Some h" using assms(1) by simp
  have k0: "\<not> rejects env 0" using assms(2) by simp
  from awaitCall_accepted [OF r0 k0] obtain tr1
    where a1: "awaitCall env 0 SetRemoteDescription (commitRemote (Offer, sdp p)) ?s0 = (Inr (), tr1)"
      and r1: "peerConnectionRef (lastState ?s0 tr1) = Some h" by blast
  have kc: "\<forall>i<?n. \<not> rejects env (1 + i)" using assms(2) by simp
  from addIceCandidates_accepted [OF r1 kc] obtain tr2
    where a2: "addIceCandidates env 1 (iceCandidates p) (lastState ?s0 tr1) = (Inr (), tr2)"
      and r2: "peerConnectionRef (lastState (lastState ?s0 tr1) tr2) = Some h" by blast
  let ?s2 = "lastState (lastState ?s0 tr1) tr2"
  have k1: "\<not> rejects env (?n + 1)" using assms(2) by simp
  from awaitCall_accepted [OF r2 k1] obtain tr3
    where a3: "awaitCall env (?n + 1) CreateAnswerCall id ?s2 = (Inr (), tr3)"
      and r3: "peerConnectionRef (lastState ?s2 tr3) = Some h" by blast
  have k2: "\<not> rejects env (?n + 2)" using assms(2) by simp
  from awaitCall_accepted [OF r3 k2] obtain tr4
    where a4: "awaitCall env (?n + 2) SetLocalDescription (commitLocal (Answer, createdSdp env))
                 (lastState ?s2 tr3) = (Inr (), tr4)" by blast
  from gatheringWait_Inr obtain t tr5
    where a5: "gatheringWait env (lastState (lastState ?s2 tr3) tr4) = (Inr t, tr5)" by blast
  show ?thesis
    using assms(1) a1 a2 a3 a4 a5
    by (simp add: createAnswer_def Let_def tryCatch_def andThen_def assign_def finalState_def)
qed

subsection \<open>Open connections\<close>

lemma allClosed_open: "allClosed s \<Longrightarrow> openHandles s = 0"
  by (simp add: allClosed_def openHandles_def)

lemma freshSession_open: "freshSession s \<Longrightarrow> openHandles s = 1"
  by (auto simp: freshSession_def openHandles_def newPeerConnection_def)

lemma freshSession_only: "freshSession s \<Longrightarrow> onlyCurrentOpen s"
  by (auto simp: freshSession_def onlyCurrentOpen_def nth_append split: if_splits)

lemma allClosed_only: "allClosed s \<Longrightarrow> onlyCurrentOpen s"
  by (auto simp: allClosed_def onlyCurrentOpen_def)

lemma closeCurrent_allClosed:
  assumes "onlyCurrentOpen s"
  shows "allClosed (closeCurrent s)"
proof (cases "peerConnectionRef s")
  case None
  with assms show ?thesis
    by (auto simp: allClosed_def onlyCurrentOpen_def closeCurrent_def in_set_conv_nth)
next
  case (Some h)
  have "isClosed pc" if "pc \<in> set (connections (closeCurrent s))" for pc
  proof -
    from that Some obtain i where i: "i < length (connections s)"
      and pc: "pc = (connections s)[h := (connections s ! h)\<lparr>isClosed := True\<rparr>] ! i"
      by (auto simp: closeCurrent_def in_set_conv_nth)
    show ?thesis
    proof (cases "i = h")
      case True
      with i pc show ?thesis by simp
    next
      case False
      with assms Some i have "isClosed (connections s ! i)"
        by (auto simp: onlyCurrentOpen_def)
      with False pc show ?thesis by simp
    qed
  qed
  then show ?thesis by (simp add: allClosed_def)
qed

lemma initializeSteps_inv:
  assumes "onlyCurrentOpen s"
  shows "\<forall>t \<in> set (initializeSteps s). openHandles t \<le> 1"
    and "freshSession (last (initializeSteps s))"
    and "length (connections (last (initializeSteps s))) = Suc (length (connections s))"
proof -
  have c: "allClosed (closeCurrent s)" using assms by (rule closeCurrent_allClosed)
  then have c': "\<forall>pc \<in> set (connections (closeCurrent s)). isClosed pc" by (simp add: allClosed_def)
  have o: "openHandles (closeCurrent s) = 0" using c by (rule allClosed_open)
  show "\<forall>t \<in> set (initializeSteps s). openHandles t \<le> 1"
    using o c' by (simp add: initializeSteps_def Let_def openHandles_def newPeerConnection_def)
  show "freshSession (last (initializeSteps s))"
    using c' by (simp add: initializeSteps_def Let_def freshSession_def)
  show "length (connections (last (initializeSteps s))) = Suc (length (connections s))"
    by (simp add: initializeSteps_def Let_def closeCurrent_def split: option.splits)
qed

lemma resetSteps_inv:
  assumes "onlyCurrentOpen s"
  shows "\<forall>t \<in> set (resetSteps s). openHandles t \<le> 1"
    and "freshSession (last (resetSteps s))"
    and "length (connections (last (resetSteps s))) = Suc (length (connections s))"
proof -
  let ?s1 = "closeCurrent s"
  let ?s2 = "?s1\<lparr>remoteStream := None, isConnected := False, isConnecting := False,
                  connectionState := New, isActivelyConnectingRef := False,
                  isCreatingAnswerRef := False\<rparr>"
  have c: "allClosed ?s1" using assms by (rule closeCurrent_allClosed)
  then have c2: "allClosed ?s2" by (simp add: allClosed_def)
  have o1: "openHandles ?s1 = 0" using c by (rule allClosed_open)
  have o2: "openHandles ?s2 = 0" using c2 by (rule allClosed_open)
  note i = initializeSteps_inv [OF allClosed_only [OF c2]]
  have steps: "resetSteps s = ?s1 # ?s2 # initializeSteps ?s2"
    by (simp add: resetSteps_def Let_def)
  have ne: "initializeSteps ?s2 \<noteq> []" by (simp add: initializeSteps_def Let_def)
  show "\<forall>t \<in> set (resetSteps s). openHandles t \<le> 1"
    unfolding steps using o1 o2 i(1) by simp
  show "freshSession (last (resetSteps s))"
    unfolding steps using i(2) ne by simp
  have "length (connections ?s2) = length (connections s)"
    by (simp add: closeCurrent_def split: option.splits)
  then show "length (connections (last (resetSteps s))) = Suc (length (connections s))"
    unfolding steps using i(3) ne by simp
qed

lemma callSteps_inv:
  assumes "onlyCurrentOpen s"
  shows "\<forall>t \<in> set (callSteps c s). openHandles t \<le> 1"
    and "freshSession (lastState s (callSteps c s))"
    and "length (connections (lastState s (callSteps c s))) = Suc (length (connections s))"
    and "callSteps c s \<noteq> []"
proof -
  have ne: "callSteps c s \<noteq> []"
    by (cases c) (simp_all add: initializeSteps_def resetSteps_def Let_def)
  then have l: "lastState s (callSteps c s) = last (callSteps c s)"
    by (simp add: lastState_last)
  show "callSteps c s \<noteq> []" by (rule ne)
  show "\<forall>t \<in> set (callSteps c s). openHandles t \<le> 1"
    using initializeSteps_inv(1) [OF assms] resetSteps_inv(1) [OF assms]
    by (cases c) simp_all
  show "freshSession (lastState s (callSteps c s))"
    unfolding l using assms by (cases c) (simp_all add: initializeSteps_inv resetSteps_inv)
  show "length (connections (lastState s (callSteps c s))) = Suc (length (connections s))"
    unfolding l using assms by (cases c) (simp_all add: initializeSteps_inv resetSteps_inv)
qed

lemma runCalls_inv:
  assumes "onlyCurrentOpen s"
  shows "(\<forall>t \<in> set (runCalls cs s). openHandles t \<le> 1)
       \<and> (cs \<noteq> [] \<longrightarrow> freshSession (lastState s (runCalls cs s)))
       \<and> length (connections (lastState s (runCalls cs s))) = length (connections s) + length cs"
  using assms
proof (induction cs arbitrary: s)
  case Nil
  show ?case by simp
next
  case (Cons c cs)
  note st = callSteps_inv [OF Cons.prems, of c]
  let ?s' = "lastState s (callSteps c s)"
  have "onlyCurrentOpen ?s'" using st(2) by (rule freshSession_only)
  note ih = Cons.IH [OF this]
  show ?case
  proof (cases cs)
    case Nil
    with st show ?thesis by simp
  next
    case (Cons c' cs')
    with st ih show ?thesis by auto
  qed
qed


section \<open>The claims\<close>

subsection \<open>C1: handleAnswer after createOffer and reset\<close>



subsection \<open>C2: the kind of a payload\<close>

text \<open>
  C2 (as stated, refuted). The claim is that a payload whose kind does not match the operation
  makes the call fail with \<open>InvalidPayload\<close> and leaves the state unchanged. Neither
  \<open>handleAnswer\<close> nor \<open>createAnswer\<close> reads the \<open>type\<close> field: the description is built with
  the literal \<open>type: 'answer'\<close> (respectively \<open>type: 'offer'\<close>) and the payload's \<open>sdp\<close>. With
  an accepting transport \<open>createAnswer\<close> on a payload of kind \<open>answer\<close> succeeds, commits the
  payload's description as a remote offer and applies its candidate; with a transport that
  rejects, \<open>handleAnswer\<close> on a payload of kind \<open>offer\<close> fails with the transport's error and
  leaves the "actively connecting" flag set.
\<close>

theorem createAnswer_accepts_answer_kind:
  "fst (createAnswer quietTransport mislabelled mounted) =
     Inr \<lparr>sd_type = Answer, sdp = ''v=0 local'', iceCandidates = []\<rparr>
   \<and> connections (finalState mounted (createAnswer quietTransport mislabelled mounted)) =
     [\<lparr>isClosed = False, localDescription = Some (Answer, ''v=0 local''),
       remoteDescription = Some (Offer, ''v=0 remote''), remoteCandidates = [''cand-a'']\<rparr>]
   \<and> fst (handleAnswer rejectingTransport someOffer mounted) =
     Inl (TransportRejected SetRemoteDescription)
   \<and> finalState mounted (handleAnswer rejectingTransport someOffer mounted) =
     mounted\<lparr>isActivelyConnectingRef := True\<rparr>
   \<and> \<not> isActivelyConnectingRef mounted"
  by code_simp

text \<open>
  C2 (amended). For every payload, transport and state, changing the payload's kind changes
  neither the result nor any state passed through, for \<open>handleAnswer\<close> and for \<open>createAnswer\<close>.
\<close>

theorem kind_field_is_ignored:
  "handleAnswer env (p\<lparr>sd_type := k\<rparr>) s = handleAnswer env p s
   \<and> createAnswer env (p\<lparr>sd_type := k\<rparr>) s = createAnswer env p s"
  by (cases "peerConnectionRef s") (simp_all add: handleAnswer_def createAnswer_def)

subsection \<open>C3: a failure inside handleAnswer\<close>

text \<open>
  C3. The claim is that on a failure of the remote-description commit or of a candidate,
  \<open>handleAnswer\<close> clears the "actively connecting" flag and the visible connecting status and
  re-raises, the candidates applied so far staying applied. The \<open>catch\<close> block calls
  \<open>setIsConnecting(false)\<close> and rethrows but does not assign \<open>isActivelyConnectingRef\<close>. On a
  mounted hook, with a transport that rejects the second candidate: the error is re-raised, the
  first candidate stays applied, \<open>isConnecting\<close> is false, the flag is still true, and a later
  \<open>connecting\<close> report of the transport publishes \<open>isConnecting\<close> again.
\<close>

theorem failed_handleAnswer_keeps_flag:
  "fst (handleAnswer secondCandidateRejected someAnswer mounted) = Inl (TransportRejected AddIceCandidate)
   \<and> remoteCandidates (connections afterFailedAnswer ! 0) = [''cand-a'']
   \<and> \<not> isConnecting afterFailedAnswer
   \<and> isActivelyConnectingRef afterFailedAnswer
   \<and> isConnecting (dispatch (ConnectionStateChange Connecting) afterFailedAnswer)"
  by code_simp

subsection \<open>C4: connecting is published before the remote description is committed\<close>

text \<open>
  C4. With an initialized handle, the first state \<open>handleAnswer\<close> passes through is the
  starting state with the "actively connecting" flag set and \<open>isConnecting\<close> published as true,
  and with the connections as they were: nothing is committed yet. If the transport accepts the
  remote description, it is committed in the next state. And in any state, a report of
  \<open>connected\<close>, \<open>disconnected\<close> or \<open>failed\<close> sets \<open>isConnecting\<close> to false and clears the flag.
\<close>

theorem handleAnswer_connecting_before_commit:
  assumes "peerConnectionRef s = Some h"
  shows "snd (handleAnswer env answerData s) \<noteq> []
       \<and> hd (snd (handleAnswer env answerData s)) =
           s\<lparr>isCreatingAnswerRef := False, isActivelyConnectingRef := True, isConnecting := True\<rparr>
       \<and> (\<not> rejects env 0 \<and> h < length (connections s) \<longrightarrow>
           remoteDescription (connections (snd (handleAnswer env answerData s) ! 1) ! h) =
             Some (Answer, sdp answerData))
       \<and> (st = Connected \<or> st = Disconnected \<or> st = Failed \<longrightarrow>
           \<not> isConnecting (dispatch (ConnectionStateChange st) u)
           \<and> \<not> isActivelyConnectingRef (dispatch (ConnectionStateChange st) u))"
proof -
  let ?s0 = "s\<lparr>isCreatingAnswerRef := False, isActivelyConnectingRef := True, isConnecting := True\<rparr>"
  let ?body = "andThen (awaitCall env 0 SetRemoteDescription (commitRemote (Answer, sdp answerData)))
                (\<lambda>_. addIceCandidates env 1 (iceCandidates answerData))"
  obtain r tr where b: "?body ?s0 = (r, tr)" by (cases "?body ?s0")
  have shape: "snd (handleAnswer env answerData s) =
      ?s0 # (case r of Inl e \<Rightarrow> tr @ [(lastState ?s0 tr)\<lparr>isConnecting := False\<rparr>] | Inr a \<Rightarrow> tr)"
    using assms(1) b
    by (simp add: handleAnswer_def tryCatch_def andThen_def [of "assign _"] assign_def
        split: sum.splits)
  have 1: "snd (handleAnswer env answerData s) \<noteq> []" unfolding shape by simp
  have 2: "hd (snd (handleAnswer env answerData s)) = ?s0" unfolding shape by simp
  have 3: "remoteDescription (connections (snd (handleAnswer env answerData s) ! 1) ! h) =
             Some (Answer, sdp answerData)"
    if ok: "\<not> rejects env 0" and len: "h < length (connections s)"
  proof -
    let ?s1 = "?s0\<lparr>connections :=
                  (connections ?s0)[h := commitRemote (Answer, sdp answerData) (connections ?s0 ! h)]\<rparr>"
    have "\<exists>rest. tr = ?s1 # rest"
      using b ok assms(1)
      by (auto simp: andThen_def awaitCall_def Let_def split: prod.splits sum.splits)
    then obtain rest where tr: "tr = ?s1 # rest" ..
    show ?thesis
      unfolding shape tr using len by (cases r) (simp_all add: commitRemote_def)
  qed
  have 4: "\<not> isConnecting (dispatch (ConnectionStateChange st) u)
           \<and> \<not> isActivelyConnectingRef (dispatch (ConnectionStateChange st) u)"
    if "st = Connected \<or> st = Disconnected \<or> st = Failed"
    using that by (auto simp: onconnectionstatechange_def Let_def)
  from 1 2 3 4 show ?thesis by blast
qed

theorem handleAnswer_connecting_before_commit_witness:
  "peerConnectionRef mounted = Some 0 \<and> \<not> rejects quietTransport 0
   \<and> 0 < length (connections mounted)
   \<and> isConnecting (hd (snd (handleAnswer quietTransport someAnswer mounted)))
   \<and> connections (hd (snd (handleAnswer quietTransport someAnswer mounted))) = connections mounted
   \<and> remoteDescription (connections (snd (handleAnswer quietTransport someAnswer mounted) ! 1) ! 0) =
       Some (Answer, sdp someAnswer)
   \<and> \<not> isConnecting (dispatch (ConnectionStateChange Connected)
          (finalState mounted (handleAnswer quietTransport someAnswer mounted)))"
proof -
  have a: "peerConnectionRef mounted = Some 0" by code_simp
  have b: "\<not> rejects quietTransport 0" by (simp add: quietTransport_def)
  have c: "0 < length (connections mounted)" by code_simp
  from handleAnswer_connecting_before_commit [OF a, of quietTransport someAnswer Connected
      "finalState mounted (handleAnswer quietTransport someAnswer mounted)"] a b c
  show ?thesis by simp
qed

subsection \<open>C5: creating an offer or an answer never shows connecting\<close>

text \<open>
  C5. On a fresh session (the mounted hook, or the state \<open>resetConnection\<close> leaves), with any
  transport and whatever it reports: \<open>isConnecting\<close> is false in every state \<open>createOffer\<close>
  passes through and in the state it returns in, and likewise for \<open>createAnswer\<close>.
\<close>

theorem creation_never_shows_connecting:
  assumes "s = mounted \<or> s = resetConnection s0"
  shows "(\<forall>t \<in> set (snd (createOffer env s)). \<not> isConnecting t)
       \<and> \<not> isConnecting (finalState s (createOffer env s))
       \<and> (\<forall>t \<in> set (snd (createAnswer env offerData s)). \<not> isConnecting t)
       \<and> \<not> isConnecting (finalState s (createAnswer env offerData s))"
proof -
  from assms have s: "idle s" using idle_mounted idle_reset by auto
  have 1: "\<forall>t \<in> set (snd (createOffer env s)). idle t"
    using throughout_createOffer s by (rule throughout_ball)
  have 2: "idle (finalState s (createOffer env s))"
    using throughout_createOffer s by (rule finalState_keeps)
  have 3: "\<forall>t \<in> set (snd (createAnswer env offerData s)). idle t"
    using throughout_createAnswer s by (rule throughout_ball)
  have 4: "idle (finalState s (createAnswer env offerData s))"
    using throughout_createAnswer s by (rule finalState_keeps)
  from 1 2 3 4 show ?thesis by (simp add: idle_def)
qed

theorem creation_never_shows_connecting_witness:
  "(mounted = mounted \<or> mounted = resetConnection initialHook)
   \<and> connectionState (finalState mounted (createAnswer connectingTransport someOffer mounted)) = Connecting
   \<and> \<not> isConnecting (finalState mounted (createAnswer connectingTransport someOffer mounted))
   \<and> connectionState (finalState mounted (createOffer connectingTransport mounted)) = Connecting
   \<and> \<not> isConnecting (finalState mounted (createOffer connectingTransport mounted))"
proof -
  have a: "connectionState (finalState mounted (createAnswer connectingTransport someOffer mounted)) = Connecting"
    by code_simp
  have b: "connectionState (finalState mounted (createOffer connectingTransport mounted)) = Connecting"
    by code_simp
  have h: "mounted = mounted \<or> mounted = resetConnection initialHook" by simp
  from creation_never_shows_connecting [OF h, of connectingTransport someOffer] a b
  show ?thesis by simp
qed

subsection \<open>C6: the candidate accumulator\<close>

text \<open>
  C6 (as stated, refuted). The claim is that a discovered candidate is appended to the
  accumulator only while a negotiation round is in progress. \<open>onicecandidate\<close> appends every
  candidate it is given. With a transport whose gathering outlasts the wait, \<open>createAnswer\<close>
  returns its payload on the timeout and clears its flag, which ends the responder's round; a
  candidate discovered after that is appended all the same.
\<close>

theorem late_candidate_is_appended:
  "fst (createAnswer slowTransport someOffer mounted) =
     Inr \<lparr>sd_type = Answer, sdp = ''v=0 local'', iceCandidates = [''cand-1'']\<rparr>
   \<and> \<not> isCreatingAnswerRef afterSlowAnswer
   \<and> iceCandidatesRef (dispatch (IceCandidate (Some ''cand-late'')) afterSlowAnswer) =
       [''cand-1'', ''cand-late'']"
  by code_simp

text \<open>
  C6 (amended). \<open>onicecandidate\<close> appends every candidate it is given, in order, in any state.
  \<open>createOffer\<close> and \<open>createAnswer\<close> do not depend on what the accumulator held when they were
  called: result and states passed through are the same for any earlier content. With an
  initialized handle, the first state each of them passes through, before any suspension, has
  the accumulator empty.
\<close>

theorem accumulator_cleared_at_start:
  "iceCandidatesRef (onicecandidate (Some c) s) = iceCandidatesRef s @ [c]
   \<and> createOffer env (s\<lparr>iceCandidatesRef := old\<rparr>) = createOffer env s
   \<and> createAnswer env offerData (s\<lparr>iceCandidatesRef := old\<rparr>) = createAnswer env offerData s
   \<and> (peerConnectionRef s \<noteq> None \<longrightarrow>
        hd (snd (createOffer env s)) = s\<lparr>iceCandidatesRef := []\<rparr>
        \<and> hd (snd (createAnswer env offerData s)) =
            s\<lparr>iceCandidatesRef := [], isCreatingAnswerRef := True\<rparr>)"
proof (cases "peerConnectionRef s")
  case None
  then show ?thesis
    by (simp add: createOffer_def createAnswer_def onicecandidate_def)
next
  case (Some h)
  have 1: "createOffer env (s\<lparr>iceCandidatesRef := old\<rparr>) = createOffer env s"
    using Some
    by (simp add: createOffer_def tryCatch_def andThen_def [of "assign _"] assign_def
        split: prod.splits sum.splits)
  have 2: "createAnswer env offerData (s\<lparr>iceCandidatesRef := old\<rparr>) = createAnswer env offerData s"
    using Some
    by (simp add: createAnswer_def Let_def tryCatch_def andThen_def [of "assign _"] assign_def
        split: prod.splits sum.splits)
  have 3: "hd (snd (createOffer env s)) = s\<lparr>iceCandidatesRef := []\<rparr>"
    using Some
    by (simp add: createOffer_def tryCatch_def andThen_def [of "assign _"] assign_def
        split: prod.splits sum.splits)
  have 4: "hd (snd (createAnswer env offerData s)) = s\<lparr>iceCandidatesRef := [], isCreatingAnswerRef := True\<rparr>"
    using Some
    by (simp add: createAnswer_def Let_def tryCatch_def andThen_def [of "assign _"] assign_def
        split: prod.splits sum.splits)
  from 1 2 3 4 Some show ?thesis by (simp add: onicecandidate_def)
qed

theorem accumulator_cleared_at_start_witness:
  "peerConnectionRef mounted \<noteq> None
   \<and> hd (snd (createOffer slowTransport (mounted\<lparr>iceCandidatesRef := [''stale'']\<rparr>))) = mounted
   \<and> fst (createOffer slowTransport (mounted\<lparr>iceCandidatesRef := [''stale'']\<rparr>)) =
       Inr \<lparr>sd_type = Offer, sdp = ''v=0 local'', iceCandidates = [''cand-1'']\<rparr>"
proof -
  have a: "peerConnectionRef mounted \<noteq> None" by code_simp
  have b: "iceCandidatesRef mounted = []" by code_simp
  have c: "fst (createOffer slowTransport mounted) =
       Inr \<lparr>sd_type = Offer, sdp = ''v=0 local'', iceCandidates = [''cand-1'']\<rparr>" by code_simp
  from b have d: "mounted\<lparr>iceCandidatesRef := []\<rparr> = mounted" by simp
  from accumulator_cleared_at_start [of "''x''" mounted slowTransport "[''stale'']" someOffer] a c d
  show ?thesis by simp
qed

subsection \<open>C7: the gathering wait\<close>

text \<open>
  C7. The wait always resolves, at a time no later than the timeout of 2000 ms; if gathering
  reads complete at the \<open>k\<close>-th poll and at none before, with that poll due before the timeout,
  the wait resolves at that poll; if gathering never reads complete, it resolves at the timeout;
  the wait has no failing outcome; and \<open>createOffer\<close> and \<open>createAnswer\<close> on an initialized
  handle whose transport calls are accepted return their payload whatever the gathering did,
  with the candidates the accumulator then holds.
\<close>

theorem gathering_wait_is_bounded:
  "fst (checkIceGathering env 0 s) \<le> timeoutMs
   \<and> timeoutMs = 2000
   \<and> ((\<forall>j<k. \<not> gatheringComplete env (j * pollMs)) \<and> gatheringComplete env (k * pollMs)
        \<and> k * pollMs < timeoutMs \<longrightarrow> fst (checkIceGathering env 0 s) = k * pollMs)
   \<and> ((\<forall>t. \<not> gatheringComplete env t) \<longrightarrow> fst (checkIceGathering env 0 s) = timeoutMs)
   \<and> (\<exists>t tr. gatheringWait env s = (Inr t, tr))
   \<and> (peerConnectionRef s \<noteq> None \<and> \<not> rejects env 0 \<and> \<not> rejects env 1 \<longrightarrow>
        fst (createOffer env s) =
          Inr \<lparr>sd_type = Offer, sdp = createdSdp env,
               iceCandidates = iceCandidatesRef (finalState s (createOffer env s))\<rparr>)
   \<and> (peerConnectionRef s \<noteq> None \<and> (\<forall>k\<le>length (iceCandidates p) + 2. \<not> rejects env k) \<longrightarrow>
        fst (createAnswer env p s) =
          Inr \<lparr>sd_type = Answer, sdp = createdSdp env,
               iceCandidates = iceCandidatesRef (finalState s (createAnswer env p s))\<rparr>)"
proof -
  have 1: "fst (checkIceGathering env 0 s) \<le> timeoutMs"
    using checkIceGathering_bounds [of 0 env s] by simp
  have 2: "fst (checkIceGathering env 0 s) = k * pollMs"
    if "\<forall>j<k. \<not> gatheringComplete env (j * pollMs)" "gatheringComplete env (k * pollMs)"
       "k * pollMs < timeoutMs"
    using checkIceGathering_first_complete [of k env 0 s] that by simp
  have 3: "fst (checkIceGathering env 0 s) = timeoutMs" if "\<forall>t. \<not> gatheringComplete env t"
    using that by (rule checkIceGathering_never_complete)
  have 4: "\<exists>t tr. gatheringWait env s = (Inr t, tr)"
    using gatheringWait_Inr [of env s] by blast
  have 5: "fst (createOffer env s) =
          Inr \<lparr>sd_type = Offer, sdp = createdSdp env,
               iceCandidates = iceCandidatesRef (finalState s (createOffer env s))\<rparr>"
    if "peerConnectionRef s \<noteq> None" "\<not> rejects env 0" "\<not> rejects env 1"
    using that createOffer_returns [of s _ env] by auto
  have 6: "fst (createAnswer env p s) =
          Inr \<lparr>sd_type = Answer, sdp = createdSdp env,
               iceCandidates = iceCandidatesRef (finalState s (createAnswer env p s))\<rparr>"
    if "peerConnectionRef s \<noteq> None" "\<forall>k\<le>length (iceCandidates p) + 2. \<not> rejects env k"
    using that createAnswer_returns [of s _ p env] by auto
  from 1 2 3 4 5 6 show ?thesis by (simp add: timeoutMs_def)
qed

theorem gathering_wait_is_bounded_witness:
  "(\<forall>t. \<not> gatheringComplete silentTransport t)
   \<and> fst (checkIceGathering silentTransport 0 mounted) = 2000
   \<and> \<not> gatheringComplete connectingTransport (0 * pollMs)
   \<and> \<not> gatheringComplete connectingTransport (1 * pollMs)
   \<and> gatheringComplete connectingTransport (2 * pollMs) \<and> 2 * pollMs < timeoutMs
   \<and> fst (checkIceGathering connectingTransport 0 mounted) = 200
   \<and> peerConnectionRef mounted \<noteq> None
   \<and> \<not> rejects silentTransport 0 \<and> \<not> rejects silentTransport 1
   \<and> fst (createOffer silentTransport mounted) =
       Inr \<lparr>sd_type = Offer, sdp = ''v=0 local'', iceCandidates = []\<rparr>"
proof -
  have a: "\<forall>t. \<not> gatheringComplete silentTransport t" by (simp add: silentTransport_def)
  have b: "\<forall>j<2. \<not> gatheringComplete connectingTransport (j * pollMs)"
  proof (intro allI impI)
    fix j :: nat assume "j < 2"
    then have "j = 0 \<or> j = 1" by auto
    then show "\<not> gatheringComplete connectingTransport (j * pollMs)"
      by (auto simp: connectingTransport_def pollMs_def)
  qed
  have b': "\<not> gatheringComplete connectingTransport (0 * pollMs)"
    "\<not> gatheringComplete connectingTransport (1 * pollMs)"
    by (simp_all add: connectingTransport_def pollMs_def)
  have c: "gatheringComplete connectingTransport (2 * pollMs)" "2 * pollMs < timeoutMs"
    by (simp_all add: connectingTransport_def pollMs_def timeoutMs_def)
  have d: "peerConnectionRef mounted \<noteq> None" by code_simp
  have e: "\<not> rejects silentTransport 0" "\<not> rejects silentTransport 1"
    by (simp_all add: silentTransport_def)
  have f: "iceCandidatesRef (finalState mounted (createOffer silentTransport mounted)) = []"
    by code_simp
  from gathering_wait_is_bounded [of silentTransport mounted 0 someOffer] a d e f
  have 1: "fst (checkIceGathering silentTransport 0 mounted) = 2000"
    "fst (createOffer silentTransport mounted) =
       Inr \<lparr>sd_type = Offer, sdp = ''v=0 local'', iceCandidates = []\<rparr>"
    by (simp_all add: silentTransport_def)
  from gathering_wait_is_bounded [of connectingTransport mounted 2 someOffer] b c
  have 2: "fst (checkIceGathering connectingTransport 0 mounted) = 200"
    by (simp add: pollMs_def)
  from a b' c d e 1 2 show ?thesis by blast
qed

subsection \<open>C8: one open connection\<close>

text \<open>
  C8. From any state of the hook in which no connection other than the current one is open
  (whatever the accumulator, the flags and the connections hold), and for every sequence of
  \<open>initializePeerConnection\<close> and \<open>resetConnection\<close> calls: no state passed through has more
  than one open connection; and after a non-empty sequence of \<open>n\<close> calls, \<open>n\<close> more connections
  have been constructed, exactly one connection is open, it is the last one, it is new and is
  the one \<open>peerConnectionRef\<close> holds, every earlier one is closed, and the accumulator is empty.
\<close>

theorem one_open_handle:
  assumes "onlyCurrentOpen s0"
  shows "(\<forall>t \<in> set (runCalls cs s0). openHandles t \<le> 1)
   \<and> (cs \<noteq> [] \<longrightarrow>
        (let s = lastState s0 (runCalls cs s0); h = length (connections s0) + length cs - 1 in
         openHandles s = 1 \<and> length (connections s) = length (connections s0) + length cs
         \<and> peerConnectionRef s = Some h \<and> connections s ! h = newPeerConnection
         \<and> (\<forall>i<h. isClosed (connections s ! i))
         \<and> iceCandidatesRef s = []))"
proof -
  note inv = runCalls_inv [OF assms, of cs]
  let ?s = "lastState s0 (runCalls cs s0)"
  let ?h = "length (connections s0) + length cs - 1"
  have len: "length (connections ?s) = length (connections s0) + length cs" using inv by simp
  have fresh: "openHandles ?s = 1 \<and> peerConnectionRef ?s = Some ?h
         \<and> connections ?s ! ?h = newPeerConnection
         \<and> (\<forall>i<?h. isClosed (connections ?s ! i))
         \<and> iceCandidatesRef ?s = []" if "cs \<noteq> []"
  proof -
    from inv that have f: "freshSession ?s" by simp
    then obtain old where old: "connections ?s = old @ [newPeerConnection]"
      "\<forall>pc \<in> set old. isClosed pc" "peerConnectionRef ?s = Some (length old)"
      "iceCandidatesRef ?s = []"
      by (auto simp: freshSession_def)
    from old(1) len have l: "length old = ?h" by simp
    from f have "openHandles ?s = 1" by (rule freshSession_open)
    with old l show ?thesis by (auto simp: nth_append)
  qed
  from inv fresh len show ?thesis by (simp add: Let_def)
qed

theorem one_open_handle_witness:
  "onlyCurrentOpen afterSlowAnswer \<and> iceCandidatesRef afterSlowAnswer = [''cand-1'']
   \<and> [Reset, Initialize] \<noteq> []
   \<and> iceCandidatesRef (lastState afterSlowAnswer (runCalls [Initialize] afterSlowAnswer)) = []
   \<and> openHandles (lastState afterSlowAnswer (runCalls [Reset, Initialize] afterSlowAnswer)) = 1
   \<and> length (connections (lastState afterSlowAnswer (runCalls [Reset, Initialize] afterSlowAnswer))) = 3
   \<and> peerConnectionRef (lastState afterSlowAnswer (runCalls [Reset, Initialize] afterSlowAnswer)) = Some 2
   \<and> iceCandidatesRef (lastState afterSlowAnswer (runCalls [Reset, Initialize] afterSlowAnswer)) = []
   \<and> onlyCurrentOpen initialHook
   \<and> mounted \<in> set (runCalls [Initialize, Reset] initialHook)
   \<and> openHandles mounted \<le> 1"
proof -
  have c: "connections afterSlowAnswer =
      [\<lparr>isClosed = False, localDescription = Some (Answer, ''v=0 local''),
        remoteDescription = Some (Offer, ''v=0 remote''), remoteCandidates = [''cand-a'']\<rparr>]"
    by code_simp
  have r: "peerConnectionRef afterSlowAnswer = Some 0" by code_simp
  have a: "onlyCurrentOpen afterSlowAnswer" by (simp add: onlyCurrentOpen_def c r)
  have b: "iceCandidatesRef afterSlowAnswer = [''cand-1'']" by code_simp
  have i: "onlyCurrentOpen initialHook" by (simp add: onlyCurrentOpen_def initialHook_def)
  have m: "mounted \<in> set (runCalls [Initialize, Reset] initialHook)"
    by (simp add: mounted_def initializePeerConnection_def initializeSteps_def Let_def)
  from one_open_handle [OF a, of "[Initialize]"]
  have 1: "iceCandidatesRef (lastState afterSlowAnswer (runCalls [Initialize] afterSlowAnswer)) = []"
    by (simp add: Let_def)
  from one_open_handle [OF a, of "[Reset, Initialize]"] c
  have 2: "openHandles (lastState afterSlowAnswer (runCalls [Reset, Initialize] afterSlowAnswer)) = 1"
    "length (connections (lastState afterSlowAnswer (runCalls [Reset, Initialize] afterSlowAnswer))) = 3"
    "peerConnectionRef (lastState afterSlowAnswer (runCalls [Reset, Initialize] afterSlowAnswer)) = Some 2"
    "iceCandidatesRef (lastState afterSlowAnswer (runCalls [Reset, Initialize] afterSlowAnswer)) = []"
    by (simp_all add: Let_def)
  from one_open_handle [OF i, of "[Initialize, Reset]"] m
  have 3: "openHandles mounted \<le> 1" by blast
  from a b i m 1 2 3 show ?thesis by simp
qed

subsection \<open>C10: handleOffer\<close>

text \<open>
  C10. \<open>handleOffer(p)\<close> awaits \<open>createAnswer(p)\<close> and drops its value: it passes through the same
  states, fails exactly when \<open>createAnswer\<close> fails, with the same error, and returns nothing
  where \<open>createAnswer\<close> returns the answer payload.
\<close>

theorem handleOffer_is_createAnswer_discarding:
  "handleOffer env p s =
     (map_sum id (\<lambda>payload. ()) (fst (createAnswer env p s)), snd (createAnswer env p s))"
  by (simp add: handleOffer_def split: prod.splits sum.splits)

end
